theory Spec2Isabelle
  imports Main "HOL-Library.Multiset" "HOL-Library.List_Lexorder" "HOL-Library.Char_ord"
begin

section \<open>Data model\<close>

text \<open>
  The serialized row handed to the client component
  (\<^verbatim>\<open>interface SerializableBigQueryRecord\<close>, BigQueryTable.tsx lines 9-14).
  \<^verbatim>\<open>load_date: string | null\<close> is an optional string. \<^verbatim>\<open>record_count: number\<close> holds
  the warehouse's integer count; it is modelled as an integer (the model covers the
  integers a JavaScript number represents exactly, where \<^verbatim>\<open>String(n)\<close> prints plain
  decimal digits). Strings are ASCII text.
\<close>

record SerializableBigQueryRecord =
  load_date :: "string option"
  source :: string
  record_count :: int
  load_status :: bool

text \<open>\<^verbatim>\<open>keyof SerializableBigQueryRecord\<close>: the four column keys.\<close>

datatype column = K_load_date | K_source | K_record_count | K_load_status

text \<open>The JavaScript values a cell of a row can hold.\<close>

datatype jsvalue = JNull | JString string | JNumber int | JBoolean bool

text \<open>\<^verbatim>\<open>item[key]\<close>: reading a column of a row.\<close>

fun item_get :: "SerializableBigQueryRecord \<Rightarrow> column \<Rightarrow> jsvalue" where
  "item_get item K_load_date = (case load_date item of None \<Rightarrow> JNull | Some s \<Rightarrow> JString s)"
| "item_get item K_source = JString (source item)"
| "item_get item K_record_count = JNumber (record_count item)"
| "item_get item K_load_status = JBoolean (load_status item)"

text \<open>\<^verbatim>\<open>type SortConfig\<close> (lines 38-41).\<close>

datatype direction = ascending | descending

record SortConfig =
  key :: "column option"
  direction :: direction

text \<open>
  \<^verbatim>\<open>type FilterValues = Partial<Record<keyof ..., string>>\<close> (line 44): an object whose
  own properties are kept in insertion order, as \<^verbatim>\<open>Object.entries\<close> enumerates them.
  It is an association list; a JavaScript object holds every key at most once.
\<close>

type_synonym FilterValues = "(column \<times> string) list"

section \<open>JavaScript built-ins used by the component\<close>

text \<open>\<^verbatim>\<open>String(n)\<close> for an integer: decimal digits, with a leading minus sign.\<close>

definition digit_char :: "nat \<Rightarrow> char" where
  "digit_char d = ''0123456789'' ! d"

fun string_of_nat :: "nat \<Rightarrow> string" where
  "string_of_nat n =
     (if n < 10 then [digit_char n] else string_of_nat (n div 10) @ [digit_char (n mod 10)])"

declare string_of_nat.simps [simp del]

definition number_to_string :: "int \<Rightarrow> string" where
  "number_to_string n =
     (if n < 0 then CHR ''-'' # string_of_nat (nat (- n)) else string_of_nat (nat n))"

text \<open>\<^verbatim>\<open>String(v)\<close> on the values of a cell.\<close>

fun js_String :: "jsvalue \<Rightarrow> string" where
  "js_String JNull = ''null''"
| "js_String (JString s) = s"
| "js_String (JNumber n) = number_to_string n"
| "js_String (JBoolean b) = (if b then ''true'' else ''false'')"

text \<open>\<^verbatim>\<open>String.prototype.toLowerCase\<close> on ASCII text: A-Z go to a-z.\<close>

definition lower_char :: "char \<Rightarrow> char" where
  "lower_char c =
     (case map_of (zip ''ABCDEFGHIJKLMNOPQRSTUVWXYZ'' ''abcdefghijklmnopqrstuvwxyz'') c of
        None \<Rightarrow> c
      | Some l \<Rightarrow> l)"

definition toLowerCase :: "string \<Rightarrow> string" where
  "toLowerCase s = map lower_char s"

text \<open>\<^verbatim>\<open>String.prototype.includes\<close>: does \<open>t\<close> occur in \<open>s\<close> as a contiguous run.\<close>

fun starts_with :: "string \<Rightarrow> string \<Rightarrow> bool" where
  "starts_with s [] = True"
| "starts_with [] (c # t) = False"
| "starts_with (x # s) (c # t) = (x = c \<and> starts_with s t)"

fun str_includes :: "string \<Rightarrow> string \<Rightarrow> bool" where
  "str_includes [] t = (t = [])"
| "str_includes (x # s) t = (starts_with (x # s) t \<or> str_includes s t)"

section \<open>Sort configuration state (lines 56, 116-122)\<close>

text \<open>\<^verbatim>\<open>useState<SortConfig>({ key: 'load_date', direction: 'descending' })\<close>.\<close>

definition initial_sortConfig :: SortConfig where
  "initial_sortConfig = \<lparr>key = Some K_load_date, direction = descending\<rparr>"

text \<open>
  \<^verbatim>\<open>handleSort(key)\<close>: the direction starts as ascending and becomes descending only
  when the clicked column is the current key and the current direction is ascending;
  the new configuration is what \<^verbatim>\<open>setSortConfig\<close> installs.
\<close>

definition handleSort :: "SortConfig \<Rightarrow> column \<Rightarrow> SortConfig" where
  "handleSort cfg k =
     (let d = (if key cfg = Some k \<and> direction cfg = ascending
               then descending else ascending)
      in \<lparr>key = Some k, direction = d\<rparr>)"

section \<open>The derived view: filter, then sort (lines 60-112)\<close>

text \<open>
  The callback handed to \<^verbatim>\<open>filteredData.filter\<close> (lines 69-81), for one filter
  entry: \<open>filterKey\<close> is the column and \<open>filterValueLower\<close> the lower-cased text.
  Both branches of the \<^verbatim>\<open>typeof itemValue === 'boolean'\<close> test are kept.
\<close>

definition filter_callback :: "column \<Rightarrow> string \<Rightarrow> SerializableBigQueryRecord \<Rightarrow> bool" where
  "filter_callback filterKey filterValueLower item =
     (let itemValue = item_get item filterKey in
      if itemValue = JNull then False
      else if (case itemValue of JBoolean b \<Rightarrow> True | _ \<Rightarrow> False)
        then str_includes (toLowerCase (js_String itemValue)) filterValueLower
        else str_includes (toLowerCase (js_String itemValue)) filterValueLower)"

text \<open>
  \<^verbatim>\<open>Object.entries(filterValues).forEach(...)\<close> (lines 64-83): the entries are visited
  in order; an entry whose text is truthy (a non-empty string) replaces
  \<open>filteredData\<close> by its filtered copy, any other entry leaves it as it is.
\<close>

fun apply_filters :: "FilterValues \<Rightarrow> SerializableBigQueryRecord list \<Rightarrow> SerializableBigQueryRecord list" where
  "apply_filters [] filteredData = filteredData"
| "apply_filters ((k, v) # entries) filteredData =
     apply_filters entries
       (if v \<noteq> [] then filter (filter_callback k (toLowerCase v)) filteredData
        else filteredData)"

text \<open>The filter stage: \<^verbatim>\<open>let filteredData = [...data]\<close> followed by the loop.\<close>

definition filter_stage :: "FilterValues \<Rightarrow> SerializableBigQueryRecord list \<Rightarrow> SerializableBigQueryRecord list" where
  "filter_stage fv data = apply_filters fv data"

text \<open>
  The comparator handed to \<^verbatim>\<open>filteredData.sort\<close> (lines 87-108), for the sort key
  \<open>k\<close> and the direction \<open>dir\<close>. \<^verbatim>\<open>String.prototype.localeCompare\<close> is a built-in whose
  collation depends on the runtime's locale data: it is the parameter \<open>lc\<close>.
\<close>

definition comparator ::
  "(string \<Rightarrow> string \<Rightarrow> int) \<Rightarrow> column \<Rightarrow> direction \<Rightarrow>
   SerializableBigQueryRecord \<Rightarrow> SerializableBigQueryRecord \<Rightarrow> int" where
  "comparator lc k dir a b =
     (let aValue = item_get a k; bValue = item_get b k in
      if aValue = JNull then (if dir = ascending then - 1 else 1)
      else if bValue = JNull then (if dir = ascending then 1 else - 1)
      else
        (let comparison =
           (case (aValue, bValue) of
              (JNumber x, JNumber y) \<Rightarrow> x - y
            | (JBoolean x, JBoolean y) \<Rightarrow> (if x = y then 0 else if x then 1 else - 1)
            | _ \<Rightarrow> lc (js_String aValue) (js_String bValue))
         in if dir = ascending then comparison else comparison * - 1))"

text \<open>
  \<^verbatim>\<open>Array.prototype.sort(compareFn)\<close> is a built-in: a stable comparison sort. It is
  modelled by stable insertion sort, which puts \<open>x\<close> before the first element \<open>y\<close> with
  \<open>cmp x y \<le> 0\<close>. For a comparator that is a consistent order on the elements the
  stable result is unique, so every engine returns this list; where the comparator
  is not (two rows with a null key: it answers "less" both ways round), the standard
  leaves the order to the engine and the model fixes one.
\<close>

fun insert_by :: "('a \<Rightarrow> 'a \<Rightarrow> int) \<Rightarrow> 'a \<Rightarrow> 'a list \<Rightarrow> 'a list" where
  "insert_by cmp x [] = [x]"
| "insert_by cmp x (y # ys) = (if cmp x y \<le> 0 then x # y # ys else y # insert_by cmp x ys)"

definition array_sort :: "('a \<Rightarrow> 'a \<Rightarrow> int) \<Rightarrow> 'a list \<Rightarrow> 'a list" where
  "array_sort cmp xs = foldr (insert_by cmp) xs []"

text \<open>The sort stage (lines 86-109): no key, no sorting.\<close>

definition sort_stage ::
  "(string \<Rightarrow> string \<Rightarrow> int) \<Rightarrow> SortConfig \<Rightarrow> SerializableBigQueryRecord list \<Rightarrow> SerializableBigQueryRecord list" where
  "sort_stage lc cfg filteredData =
     (case key cfg of
        None \<Rightarrow> filteredData
      | Some k \<Rightarrow> array_sort (comparator lc k (direction cfg)) filteredData)"

text \<open>The memoized derivation \<^verbatim>\<open>processedData\<close> as a function of its three inputs.\<close>

definition processedData ::
  "(string \<Rightarrow> string \<Rightarrow> int) \<Rightarrow> SerializableBigQueryRecord list \<Rightarrow> SortConfig \<Rightarrow> FilterValues
   \<Rightarrow> SerializableBigQueryRecord list" where
  "processedData lc data cfg fv = sort_stage lc cfg (filter_stage fv data)"

text \<open>
  What the claim about the filter stage says of one row, one column and one filter
  text, in the claim's words: the value of the column, stringified (booleans as
  "true"/"false", numbers in decimal), contains the filter text as a substring,
  case-insensitively; a null value never matches.
\<close>

definition spec_contains_ci :: "string \<Rightarrow> string \<Rightarrow> bool" where
  "spec_contains_ci s t = (\<exists>before after. toLowerCase s = before @ toLowerCase t @ after)"

definition spec_matches :: "SerializableBigQueryRecord \<Rightarrow> column \<Rightarrow> string \<Rightarrow> bool" where
  "spec_matches item k t =
     (case item_get item k of
        JNull \<Rightarrow> False
      | JString s \<Rightarrow> spec_contains_ci s t
      | JNumber n \<Rightarrow> spec_contains_ci (number_to_string n) t
      | JBoolean b \<Rightarrow> spec_contains_ci (if b then ''true'' else ''false'') t)"

text \<open>
  What the sort stage needs of \<^verbatim>\<open>localeCompare\<close>: it is a consistent comparison, that
  is, swapping the arguments swaps the sign, and "not greater" is transitive.
\<close>

definition consistent_comparator :: "(string \<Rightarrow> string \<Rightarrow> int) \<Rightarrow> bool" where
  "consistent_comparator lc =
     ((\<forall>s t. (lc s t < 0) = (0 < lc t s))
      \<and> (\<forall>s t u. lc s t \<le> 0 \<longrightarrow> lc t u \<le> 0 \<longrightarrow> lc s u \<le> 0))"

text \<open>
  The ascending order of the rows on column \<open>k\<close>, read off the comparator: \<open>a\<close> is
  not after \<open>b\<close> when the ascending comparison of \<open>a\<close> with \<open>b\<close> is not positive.
\<close>

definition ascending_le ::
  "(string \<Rightarrow> string \<Rightarrow> int) \<Rightarrow> column \<Rightarrow> SerializableBigQueryRecord \<Rightarrow> SerializableBigQueryRecord \<Rightarrow> bool" where
  "ascending_le lc k a b = (comparator lc k ascending a b \<le> 0)"

text \<open>
  One collation a runtime may have: comparison by character code. It serves as the
  concrete \<^verbatim>\<open>localeCompare\<close> of the examples.
\<close>

definition code_unit_compare :: "string \<Rightarrow> string \<Rightarrow> int" where
  "code_unit_compare s t = (if s < t then - 1 else if s = t then 0 else 1)"

text \<open>The two rows of the specification's scenarios.\<close>

definition scenario_rowA :: SerializableBigQueryRecord where
  "scenario_rowA =
     \<lparr>load_date = Some ''2024-01-01'', source = ''A'', record_count = 10, load_status = True\<rparr>"

definition scenario_rowB :: SerializableBigQueryRecord where
  "scenario_rowB =
     \<lparr>load_date = None, source = ''B'', record_count = 5, load_status = False\<rparr>"

section \<open>Component state and its event handlers\<close>

text \<open>The two \<^verbatim>\<open>useState\<close> cells of the component (lines 56-57).\<close>

record ui_state =
  sortConfig :: SortConfig
  filterValues :: FilterValues

definition initial_state :: ui_state where
  "initial_state = \<lparr>sortConfig = initial_sortConfig, filterValues = []\<rparr>"

text \<open>
  \<^verbatim>\<open>{ ...prev, [key]: value }\<close> (lines 126-129): an existing key keeps its place and
  gets the new text, a new key is appended.
\<close>

fun handleFilterChange :: "FilterValues \<Rightarrow> column \<Rightarrow> string \<Rightarrow> FilterValues" where
  "handleFilterChange [] k v = [(k, v)]"
| "handleFilterChange ((k', v') # prev) k v =
     (if k' = k then (k, v) # prev else (k', v') # handleFilterChange prev k v)"

text \<open>
  The interactions the rendered table offers: a click on a column header (line 159)
  and typing into a column's filter box (line 170).
\<close>

datatype event = HeaderClick column | FilterInput column string

fun handle_event :: "ui_state \<Rightarrow> event \<Rightarrow> ui_state" where
  "handle_event st (HeaderClick k) = st\<lparr>sortConfig := handleSort (sortConfig st) k\<rparr>"
| "handle_event st (FilterInput k v) = st\<lparr>filterValues := handleFilterChange (filterValues st) k v\<rparr>"

definition run_events :: "ui_state \<Rightarrow> event list \<Rightarrow> ui_state" where
  "run_events st evs = foldl handle_event st evs"

section \<open>Dates: the built-in \<^verbatim>\<open>Date\<close> used by formatDate\<close>

text \<open>
  A \<^verbatim>\<open>Date\<close> object holds a time value: milliseconds since the epoch, or NaN
  (\<open>None\<close>) for an invalid date. The functions below follow the standard's abstract
  operations of the same names, on integers.
\<close>

definition msPerDay :: int where
  "msPerDay = 86400000"

definition msPerMinute :: int where
  "msPerMinute = 60000"

definition Day :: "int \<Rightarrow> int" where
  "Day t = t div msPerDay"

definition HourFromTime :: "int \<Rightarrow> int" where
  "HourFromTime t = (t div 3600000) mod 24"

definition MinFromTime :: "int \<Rightarrow> int" where
  "MinFromTime t = (t div msPerMinute) mod 60"

definition SecFromTime :: "int \<Rightarrow> int" where
  "SecFromTime t = (t div 1000) mod 60"

definition msFromTime :: "int \<Rightarrow> int" where
  "msFromTime t = t mod 1000"

definition MakeTime :: "int \<Rightarrow> int \<Rightarrow> int \<Rightarrow> int \<Rightarrow> int" where
  "MakeTime h m s ms = h * 3600000 + m * msPerMinute + s * 1000 + ms"

definition MakeDate :: "int \<Rightarrow> int \<Rightarrow> int" where
  "MakeDate day time = day * msPerDay + time"

definition TimeClip :: "int \<Rightarrow> int option" where
  "TimeClip t = (if 8640000000000000 < \<bar>t\<bar> then None else Some t)"

text \<open>Day number of a calendar date (proleptic Gregorian), and back.\<close>

definition days_from_civil :: "int \<Rightarrow> int \<Rightarrow> int \<Rightarrow> int" where
  "days_from_civil y m d =
     (let y' = (if m \<le> 2 then y - 1 else y);
          era = y' div 400;
          yoe = y' mod 400;
          doy = (153 * (if 2 < m then m - 3 else m + 9) + 2) div 5 + d - 1;
          doe = yoe * 365 + yoe div 4 - yoe div 100 + doy
      in era * 146097 + doe - 719468)"

definition civil_from_days :: "int \<Rightarrow> int \<times> int \<times> int" where
  "civil_from_days z =
     (let z' = z + 719468;
          era = z' div 146097;
          doe = z' mod 146097;
          yoe = (doe - doe div 1460 + doe div 36524 - doe div 146096) div 365;
          doy = doe - (365 * yoe + yoe div 4 - yoe div 100);
          mp = (5 * doy + 2) div 153;
          d = doy - (153 * mp + 2) div 5 + 1;
          m = (if mp < 10 then mp + 3 else mp - 9);
          y = yoe + era * 400
      in (if m \<le> 2 then y + 1 else y, m, d))"

definition leap_year :: "int \<Rightarrow> bool" where
  "leap_year y = ((y mod 4 = 0 \<and> y mod 100 \<noteq> 0) \<or> y mod 400 = 0)"

definition days_in_month :: "int \<Rightarrow> int \<Rightarrow> int" where
  "days_in_month y m =
     (if m = 2 then (if leap_year y then 29 else 28)
      else if m = 4 \<or> m = 6 \<or> m = 9 \<or> m = 11 then 30 else 31)"

text \<open>Reading decimal digits.\<close>

definition digit_value :: "char \<Rightarrow> int option" where
  "digit_value c = map_of (zip ''0123456789'' [0, 1, 2, 3, 4, 5, 6, 7, 8, 9]) c"

fun number_of_digits :: "int \<Rightarrow> string \<Rightarrow> int option" where
  "number_of_digits acc [] = Some acc"
| "number_of_digits acc (c # cs) =
     (case digit_value c of None \<Rightarrow> None | Some d \<Rightarrow> number_of_digits (acc * 10 + d) cs)"

text \<open>
  The date-only form \<^verbatim>\<open>YYYY-MM-DD\<close> of the standard's date-time string format: a
  valid calendar date is midnight UTC of that day; anything else is not of this form.
\<close>

definition parse_iso_date :: "string \<Rightarrow> int option" where
  "parse_iso_date s =
     (if length s = 10 \<and> s ! 4 = CHR ''-'' \<and> s ! 7 = CHR ''-'' then
        (case number_of_digits 0 (take 4 s) of
           None \<Rightarrow> None
         | Some y \<Rightarrow>
             (case number_of_digits 0 (take 2 (drop 5 s)) of
                None \<Rightarrow> None
              | Some m \<Rightarrow>
                  (case number_of_digits 0 (drop 8 s) of
                     None \<Rightarrow> None
                   | Some d \<Rightarrow>
                       if 1 \<le> m \<and> m \<le> 12 \<and> 1 \<le> d \<and> d \<le> days_in_month y m
                       then Some (MakeDate (days_from_civil y m d) 0)
                       else None)))
      else None)"

text \<open>
  \<^verbatim>\<open>Date.parse\<close>: the standard format first; a string that is not of the date-only
  form above is left to \<open>fallback\<close>, which stands for the other forms of the standard
  format and for the engine's own heuristics.
\<close>

definition Date_parse :: "(string \<Rightarrow> int option) \<Rightarrow> string \<Rightarrow> int option" where
  "Date_parse fallback s = (case parse_iso_date s of Some t \<Rightarrow> Some t | None \<Rightarrow> fallback s)"

text \<open>
  What the component takes from its runtime: the collation of \<^verbatim>\<open>localeCompare\<close>, the
  date parser's fallback, the viewer's timezone offset in minutes as
  \<^verbatim>\<open>getTimezoneOffset\<close> reports it (UTC minus local time; a fixed offset), and the
  number format of \<^verbatim>\<open>toLocaleString\<close>.
\<close>

record runtime =
  localeCompare :: "string \<Rightarrow> string \<Rightarrow> int"
  parse_fallback :: "string \<Rightarrow> int option"
  timezoneOffset :: int
  toLocaleString :: "int \<Rightarrow> string"

definition LocalTime :: "runtime \<Rightarrow> int \<Rightarrow> int" where
  "LocalTime rt t = t - timezoneOffset rt * msPerMinute"

definition UTC :: "runtime \<Rightarrow> int \<Rightarrow> int" where
  "UTC rt t = t + timezoneOffset rt * msPerMinute"

text \<open>\<^verbatim>\<open>new Date(dateString)\<close>: never throws; an unparseable string gives NaN.\<close>

definition new_Date :: "runtime \<Rightarrow> string \<Rightarrow> int option" where
  "new_Date rt s =
     (case Date_parse (parse_fallback rt) s of None \<Rightarrow> None | Some t \<Rightarrow> TimeClip t)"

definition getMinutes :: "runtime \<Rightarrow> int option \<Rightarrow> int option" where
  "getMinutes rt date = map_option (\<lambda>t. MinFromTime (LocalTime rt t)) date"

definition getTimezoneOffset :: "runtime \<Rightarrow> int option \<Rightarrow> int option" where
  "getTimezoneOffset rt date = map_option (\<lambda>t. timezoneOffset rt) date"

text \<open>Addition of two numbers either of which may be NaN.\<close>

definition js_plus :: "int option \<Rightarrow> int option \<Rightarrow> int option" where
  "js_plus x y = (case x of None \<Rightarrow> None | Some a \<Rightarrow> map_option (\<lambda>b. a + b) y)"

text \<open>\<^verbatim>\<open>date.setMinutes(min)\<close>: replaces the minutes field of the local time.\<close>

definition setMinutes :: "runtime \<Rightarrow> int option \<Rightarrow> int option \<Rightarrow> int option" where
  "setMinutes rt date minutes =
     (case date of
        None \<Rightarrow> None
      | Some t \<Rightarrow>
          (case minutes of
             None \<Rightarrow> None
           | Some m \<Rightarrow>
               (let lt = LocalTime rt t
                in TimeClip (UTC rt (MakeDate (Day lt)
                     (MakeTime (HourFromTime lt) m (SecFromTime lt) (msFromTime lt)))))))"

definition pad2 :: "int \<Rightarrow> string" where
  "pad2 n = (if n < 10 then CHR ''0'' # number_to_string n else number_to_string n)"

text \<open>
  \<^verbatim>\<open>date.toLocaleDateString('en-CA')\<close>: year-month-day of the local time, the month and
  the day with two digits; the string "Invalid Date" for NaN. It does not throw.
\<close>

definition toLocaleDateString_en_CA :: "runtime \<Rightarrow> int option \<Rightarrow> string" where
  "toLocaleDateString_en_CA rt date =
     (case date of
        None \<Rightarrow> ''Invalid Date''
      | Some t \<Rightarrow>
          (case civil_from_days (Day (LocalTime rt t)) of
             (y, m, d) \<Rightarrow> number_to_string y @ ''-'' @ pad2 m @ ''-'' @ pad2 d))"

section \<open>formatDate (lines 19-35)\<close>

datatype js_error = TypeError | Error string

text \<open>
  The body of the \<^verbatim>\<open>try\<close> block (lines 25-30). Its result is either a thrown error or
  the returned string; none of the built-ins it calls throws.
\<close>

definition formatDate_try :: "runtime \<Rightarrow> string \<Rightarrow> js_error + string" where
  "formatDate_try rt dateString =
     (let date = new_Date rt dateString;
          date' = setMinutes rt date (js_plus (getMinutes rt date) (getTimezoneOffset rt date))
      in Inr (toLocaleDateString_en_CA rt date'))"

text \<open>
  \<^verbatim>\<open>formatDate\<close>: a falsy argument (null, undefined, the empty string) gives "N/A";
  otherwise the \<^verbatim>\<open>try\<close> block's string, and in the \<^verbatim>\<open>catch\<close> handler
  \<^verbatim>\<open>dateString || 'Invalid Date'\<close>.
\<close>

definition formatDate :: "runtime \<Rightarrow> string option \<Rightarrow> string" where
  "formatDate rt dateString =
     (case dateString of
        None \<Rightarrow> ''N/A''
      | Some s \<Rightarrow>
          if s = [] then ''N/A''
          else (case formatDate_try rt s of
                  Inr shown \<Rightarrow> shown
                | Inl e \<Rightarrow> (if s \<noteq> [] then s else ''Invalid Date'')))"

section \<open>The normalization boundary (page.tsx lines 19-23)\<close>

text \<open>
  The warehouse's date wrapper exposes its canonical string as \<^verbatim>\<open>value\<close> (the
  selector \<open>date_value\<close>). The raw row
  (\<^verbatim>\<open>interface BigQueryRecord\<close>) has the fields of the serialized row with the wrapper
  in place of the string; its fields carry the prefix \<open>raw\<close> here, the names being
  taken by the serialized row.
\<close>

datatype BigQueryDate = BigQueryDate (date_value: string)

record BigQueryRecord =
  raw_load_date :: "BigQueryDate option"
  raw_source :: string
  raw_record_count :: int
  raw_load_status :: bool

text \<open>The callback of \<^verbatim>\<open>rawData.map\<close>: \<^verbatim>\<open>load_date: record.load_date?.value ?? null\<close>.\<close>

definition serialize_record :: "BigQueryRecord \<Rightarrow> SerializableBigQueryRecord" where
  "serialize_record r =
     \<lparr>load_date = (case raw_load_date r of None \<Rightarrow> None | Some d \<Rightarrow> Some (date_value d)),
      source = raw_source r,
      record_count = raw_record_count r,
      load_status = raw_load_status r\<rparr>"

definition serializableData :: "BigQueryRecord list \<Rightarrow> SerializableBigQueryRecord list" where
  "serializableData rawData = map serialize_record rawData"

section \<open>Rendering (lines 132-214)\<close>










text \<open>
  The four cells of a row (lines 183-200). \<^verbatim>\<open>toLocaleString()\<close> formats the count in
  the runtime's locale.
\<close>

definition render_row :: "runtime \<Rightarrow> SerializableBigQueryRecord \<Rightarrow> string list" where
  "render_row rt row =
     [formatDate rt (load_date row),
      source row,
      toLocaleString rt (record_count row),
      if load_status row then ''Success'' else ''Failed'']"

text \<open>One number format a runtime may have: en-US, digits grouped in threes by commas.\<close>

fun group3 :: "string \<Rightarrow> string" where
  "group3 (a # b # c # d # rest) = a # b # c # CHR '','' # group3 (d # rest)"
| "group3 s = s"

definition toLocaleString_en_US :: "int \<Rightarrow> string" where
  "toLocaleString_en_US n =
     (if n < 0 then CHR ''-'' # rev (group3 (rev (string_of_nat (nat (- n)))))
      else rev (group3 (rev (string_of_nat (nat n)))))"

definition example_runtime :: runtime where
  "example_runtime =
     \<lparr>localeCompare = code_unit_compare, parse_fallback = (\<lambda>s. None),
      timezoneOffset = 300, toLocaleString = toLocaleString_en_US\<rparr>"



section \<open>fetchBigQueryData (lib/bigquery.ts)\<close>

text \<open>\<^verbatim>\<open>process.env\<close>: the four variables the function reads, each possibly unset.\<close>

record environment =
  BIGQUERY_DATASET :: "string option"
  BIGQUERY_TABLE :: "string option"
  GCP_PROJECT_ID :: "string option"
  BIGQUERY_LOCATION :: "string option"

record query_options =
  query :: string
  location :: string

text \<open>
  What a failing query throws: an \<^verbatim>\<open>Error\<close> with its message, or some other value,
  given by its \<^verbatim>\<open>String(error)\<close>.
\<close>

datatype thrown = ErrorObject string | OtherValue string

text \<open>What the function does besides returning: the queries it runs, the errors it logs.\<close>

datatype effect = QueryRun query_options | ConsoleError

definition newline :: char where
  "newline = CHR 0x0A"

text \<open>The template literal of lines 253-264.\<close>

definition query_text :: "string \<Rightarrow> string \<Rightarrow> string \<Rightarrow> string" where
  "query_text projectId datasetId tableId =
     [newline] @ ''        SELECT'' @
     [newline] @ ''            load_date,'' @
     [newline] @ ''            source,'' @
     [newline] @ ''            record_count,'' @
     [newline] @ ''            load_status'' @
     [newline] @ ''        FROM'' @
     [newline] @ ''            `'' @ projectId @ ''.'' @ datasetId @ ''.'' @ tableId @ ''`'' @
     [newline] @ ''        ORDER BY'' @
     [newline] @ ''            load_date DESC'' @
     [newline] @ ''            LIMIT 100; -- Example: Limit results for performance'' @
     [newline] @ ''    ''"

text \<open>
  \<^verbatim>\<open>fetchBigQueryData\<close>: \<open>client\<close> is \<^verbatim>\<open>bigqueryClient.query\<close>, which either throws or
  returns the rows. The result is the rows or the thrown error, with the effects in
  the order they happen. The test of line 246 throws when any of the four variables
  is falsy: unset, or the empty string.
\<close>

definition missing_configuration :: "(js_error + BigQueryRecord list) \<times> effect list" where
  "missing_configuration =
     (Inl (Error (''Missing required environment variables for BigQuery connection '' @
        ''(GCP_PROJECT_ID, BIGQUERY_DATASET, BIGQUERY_TABLE, BIGQUERY_LOCATION)'')), [])"

definition fetchBigQueryData ::
  "(query_options \<Rightarrow> thrown + BigQueryRecord list) \<Rightarrow> environment
   \<Rightarrow> (js_error + BigQueryRecord list) \<times> effect list" where
  "fetchBigQueryData client env =
     (case (BIGQUERY_DATASET env, BIGQUERY_TABLE env, GCP_PROJECT_ID env, BIGQUERY_LOCATION env) of
        (Some datasetId, Some tableId, Some projectId, Some loc) \<Rightarrow>
          if datasetId = [] \<or> tableId = [] \<or> projectId = [] \<or> loc = []
          then missing_configuration
          else
            (let options = \<lparr>query = query_text projectId datasetId tableId, location = loc\<rparr> in
             case client options of
               Inr rows \<Rightarrow> (Inr rows, [QueryRun options])
             | Inl err \<Rightarrow>
                 (Inl (Error (''Failed to fetch data from BigQuery.'' @
                    (case err of
                       ErrorObject message \<Rightarrow> '' '' @ message
                     | OtherValue text \<Rightarrow> '' '' @ text))),
                  [QueryRun options, ConsoleError]))
      | _ \<Rightarrow> missing_configuration)"

section \<open>The derivation on a store of arrays\<close>

text \<open>
  To say what the derivation writes, arrays are objects in a store: an address holds
  the list of the references an array has as its elements, and a reference denotes a
  row object. New arrays are allocated at \<open>next_addr\<close>. \<^verbatim>\<open>[...a]\<close> and \<^verbatim>\<open>a.filter(f)\<close>
  allocate a new array; \<^verbatim>\<open>a.sort(cmp)\<close> rearranges the array \<open>a\<close> itself.
\<close>

record store =
  arrays :: "nat \<Rightarrow> nat list option"
  objects :: "nat \<Rightarrow> SerializableBigQueryRecord"
  next_addr :: nat

definition store_ok :: "store \<Rightarrow> bool" where
  "store_ok s = (\<forall>a. arrays s a \<noteq> None \<longrightarrow> a < next_addr s)"

definition new_array :: "nat list \<Rightarrow> store \<Rightarrow> nat \<times> store" where
  "new_array refs s =
     (next_addr s, s\<lparr>arrays := (arrays s)(next_addr s \<mapsto> refs), next_addr := Suc (next_addr s)\<rparr>)"

definition heap_spread :: "nat \<Rightarrow> store \<Rightarrow> (nat \<times> store) option" where
  "heap_spread a s = (case arrays s a of None \<Rightarrow> None | Some refs \<Rightarrow> Some (new_array refs s))"

definition heap_filter ::
  "(SerializableBigQueryRecord \<Rightarrow> bool) \<Rightarrow> nat \<Rightarrow> store \<Rightarrow> (nat \<times> store) option" where
  "heap_filter f a s =
     (case arrays s a of
        None \<Rightarrow> None
      | Some refs \<Rightarrow> Some (new_array (filter (\<lambda>r. f (objects s r)) refs) s))"

definition heap_sort ::
  "(SerializableBigQueryRecord \<Rightarrow> SerializableBigQueryRecord \<Rightarrow> int) \<Rightarrow> nat \<Rightarrow> store \<Rightarrow> store option" where
  "heap_sort cmp a s =
     (case arrays s a of
        None \<Rightarrow> None
      | Some refs \<Rightarrow>
          Some (s\<lparr>arrays := (arrays s)
                  (a \<mapsto> array_sort (\<lambda>r1 r2. cmp (objects s r1) (objects s r2)) refs)\<rparr>))"

fun heap_apply_filters :: "FilterValues \<Rightarrow> nat \<Rightarrow> store \<Rightarrow> (nat \<times> store) option" where
  "heap_apply_filters [] filteredData s = Some (filteredData, s)"
| "heap_apply_filters ((k, v) # entries) filteredData s =
     (if v \<noteq> [] then
        (case heap_filter (filter_callback k (toLowerCase v)) filteredData s of
           None \<Rightarrow> None
         | Some (filteredData', s') \<Rightarrow> heap_apply_filters entries filteredData' s')
      else heap_apply_filters entries filteredData s)"

text \<open>
  The \<^verbatim>\<open>useMemo\<close> callback on the store: \<open>data\<close> is the address of the input array;
  the result is the address of the derived array and the store afterwards, or
  \<open>None\<close> when an array is missing at an address that is read.
\<close>

definition heap_processedData ::
  "(string \<Rightarrow> string \<Rightarrow> int) \<Rightarrow> nat \<Rightarrow> SortConfig \<Rightarrow> FilterValues \<Rightarrow> store
   \<Rightarrow> (nat \<times> store) option" where
  "heap_processedData lc data cfg fv s =
     (case heap_spread data s of
        None \<Rightarrow> None
      | Some (copy, s0) \<Rightarrow>
          (case heap_apply_filters fv copy s0 of
             None \<Rightarrow> None
           | Some (filteredData, s1) \<Rightarrow>
               (case key cfg of
                  None \<Rightarrow> Some (filteredData, s1)
                | Some k \<Rightarrow>
                    (case heap_sort (comparator lc k (direction cfg)) filteredData s1 of
                       None \<Rightarrow> None
                     | Some s2 \<Rightarrow> Some (filteredData, s2)))))"

text \<open>The rows an array of the store holds, in order.\<close>

definition contents :: "store \<Rightarrow> nat \<Rightarrow> SerializableBigQueryRecord list option" where
  "contents s a = map_option (map (objects s)) (arrays s a)"

text \<open>
  What a step of the derivation leaves alone, seen from the arrays allocated below
  \<open>n\<close>: the row objects, and every array below \<open>n\<close>.
\<close>

definition frame :: "nat \<Rightarrow> store \<Rightarrow> store \<Rightarrow> bool" where
  "frame n s s' =
     (objects s' = objects s \<and> (\<forall>a. a < n \<longrightarrow> arrays s' a = arrays s a)
      \<and> store_ok s' \<and> n \<le> next_addr s')"

text \<open>An example store: the input array at address 0 holds two rows.\<close>

definition example_store :: store where
  "example_store =
     \<lparr>arrays = Map.empty(0 \<mapsto> [0, 1]),
      objects = (\<lambda>r. if r = 0 then scenario_rowB else scenario_rowA),
      next_addr = 1\<rparr>"

text \<open>Example inputs of \<^verbatim>\<open>fetchBigQueryData\<close>.\<close>

definition example_env :: environment where
  "example_env =
     \<lparr>BIGQUERY_DATASET = Some ''reporting'', BIGQUERY_TABLE = Some ''loads'',
      GCP_PROJECT_ID = Some ''acme'', BIGQUERY_LOCATION = Some ''EU''\<rparr>"

definition failing_client :: "query_options \<Rightarrow> thrown + BigQueryRecord list" where
  "failing_client options = Inl (ErrorObject ''quota exceeded'')"

section \<open>The filter stage\<close>

lemma starts_with_iff: "starts_with s t \<longleftrightarrow> (\<exists>after. s = t @ after)"
  by (induction s t rule: starts_with.induct) auto

lemma str_includes_iff: "str_includes s t \<longleftrightarrow> (\<exists>before after. s = before @ t @ after)"
proof (induction s)
  case Nil
  then show ?case by auto
next
  case (Cons x s)
  show ?case
  proof
    assume "str_includes (x # s) t"
    then consider "starts_with (x # s) t" | "str_includes s t" by auto
    then show "\<exists>before after. x # s = before @ t @ after"
    proof cases
      case 1
      then obtain after where "x # s = t @ after" using starts_with_iff by blast
      then have "x # s = [] @ t @ after" by simp
      then show ?thesis by blast
    next
      case 2
      then obtain before after where "s = before @ t @ after" using Cons.IH by blast
      then have "x # s = (x # before) @ t @ after" by simp
      then show ?thesis by blast
    qed
  next
    assume "\<exists>before after. x # s = before @ t @ after"
    then obtain before after where e: "x # s = before @ t @ after" by blast
    show "str_includes (x # s) t"
    proof (cases before)
      case Nil
      then have "starts_with (x # s) t" using e starts_with_iff by auto
      then show ?thesis by simp
    next
      case (Cons b bs)
      then have "s = bs @ t @ after" using e by simp
      then have "str_includes s t" using Cons.IH by blast
      then show ?thesis by simp
    qed
  qed
qed

lemma filter_callback_spec: "filter_callback k (toLowerCase t) item = spec_matches item k t"
  by (cases k; cases "load_date item")
     (simp_all add: filter_callback_def spec_matches_def spec_contains_ci_def str_includes_iff)

lemma apply_filters_eq:
  "apply_filters fv xs =
     filter (\<lambda>item. \<forall>(k, v) \<in> set fv. v \<noteq> [] \<longrightarrow> filter_callback k (toLowerCase v) item) xs"
  by (induction fv arbitrary: xs) (auto intro: filter_cong)

lemma entries_map_of:
  "distinct (map fst fv) \<Longrightarrow>
     (\<forall>(k, v) \<in> set fv. P k v) = (\<forall>k v. map_of fv k = Some v \<longrightarrow> P k v)"
  by auto

text \<open>
  Claim C1. For every input array and every filter mapping (an object: each key at
  most once), the filter stage returns exactly the rows of the input, in their order,
  that match every column whose filter entry is a non-empty string: the column's
  value, stringified, contains the filter text as a substring, case-insensitively.
  Absent and empty entries constrain nothing, a null value in a filtered column never
  matches, and the active filters compose with logical AND.
\<close>

theorem C1_filter_stage:
  assumes "distinct (map fst filters)"
  shows "filter_stage filters data =
     filter (\<lambda>item. \<forall>k t. map_of filters k = Some t \<and> t \<noteq> [] \<longrightarrow> spec_matches item k t) data"
proof -
  have "(\<forall>(k, v) \<in> set filters. v \<noteq> [] \<longrightarrow> filter_callback k (toLowerCase v) item)
      = (\<forall>k t. map_of filters k = Some t \<and> t \<noteq> [] \<longrightarrow> spec_matches item k t)" for item
    using entries_map_of [OF assms, of "\<lambda>k v. v \<noteq> [] \<longrightarrow> filter_callback k (toLowerCase v) item"]
    by (auto simp: filter_callback_spec)
  then show ?thesis
    by (simp add: filter_stage_def apply_filters_eq)
qed


theorem C1_filter_stage_witness:
  "distinct (map fst [(K_source, ''a'')])
   \<and> filter_stage [(K_source, ''a'')] [scenario_rowA, scenario_rowB]
       = filter (\<lambda>item. \<forall>k t. map_of [(K_source, ''a'')] k = Some t \<and> t \<noteq> []
                   \<longrightarrow> spec_matches item k t) [scenario_rowA, scenario_rowB]
   \<and> filter_stage [(K_source, ''a'')] [scenario_rowA, scenario_rowB] = [scenario_rowA]"
proof -
  have d: "distinct (map fst [(K_source, ''a'')])" by simp
  have e: "filter_stage [(K_source, ''a'')] [scenario_rowA, scenario_rowB] = [scenario_rowA]"
    by (simp add: filter_stage_def filter_callback_def scenario_rowA_def scenario_rowB_def
        toLowerCase_def lower_char_def)
  show ?thesis
    using C1_filter_stage [OF d, of "[scenario_rowA, scenario_rowB]"] d e by simp
qed

section \<open>The sort stage\<close>

lemma consistent_code_unit_compare: "consistent_comparator code_unit_compare"
  unfolding consistent_comparator_def code_unit_compare_def
  by (auto split: if_splits)

lemma comparator_descending:
  "comparator lc k descending a b = - comparator lc k ascending a b"
  by (simp add: comparator_def Let_def)

lemma comparator_null_left:
  "item_get a k = JNull \<Longrightarrow> comparator lc k ascending a b = - 1"
  by (simp add: comparator_def)

lemma comparator_null_right:
  "item_get a k \<noteq> JNull \<Longrightarrow> item_get b k = JNull \<Longrightarrow> comparator lc k ascending a b = 1"
  by (simp add: comparator_def)

lemma comparator_number:
  "comparator lc K_record_count ascending a b = record_count a - record_count b"
  by (simp add: comparator_def)

lemma comparator_boolean:
  "comparator lc K_load_status ascending a b =
     (if load_status a = load_status b then 0 else if load_status a then 1 else - 1)"
  by (simp add: comparator_def)

lemma comparator_source:
  "comparator lc K_source ascending a b = lc (source a) (source b)"
  by (simp add: comparator_def)

lemma comparator_date:
  "load_date a = Some s \<Longrightarrow> load_date b = Some t \<Longrightarrow>
     comparator lc K_load_date ascending a b = lc s t"
  by (simp add: comparator_def)

lemma comparator_load_date:
  "comparator lc K_load_date ascending a b =
     (case load_date a of
        None \<Rightarrow> - 1
      | Some s \<Rightarrow> (case load_date b of None \<Rightarrow> 1 | Some t \<Rightarrow> lc s t))"
  by (simp add: comparator_def split: option.splits)

lemmas comparator_ascending =
  comparator_load_date comparator_source comparator_number comparator_boolean

lemma ascending_le_total:
  assumes "consistent_comparator lc"
  shows "ascending_le lc k a b \<or> ascending_le lc k b a"
proof -
  have tot: "lc s t \<le> 0 \<or> lc t s \<le> 0" for s t
  proof -
    have "(lc t s < 0) = (0 < lc s t)"
      using assms unfolding consistent_comparator_def by blast
    then show ?thesis by auto
  qed
  show ?thesis
  proof (cases k)
    case K_load_date
    show ?thesis
    proof (cases "load_date a")
      case None
      then show ?thesis using K_load_date by (simp add: ascending_le_def comparator_load_date)
    next
      case sa: (Some s)
      show ?thesis
      proof (cases "load_date b")
        case None
        then show ?thesis using K_load_date by (simp add: ascending_le_def comparator_load_date)
      next
        case (Some t)
        then show ?thesis using K_load_date sa tot [of s t]
          by (simp add: ascending_le_def comparator_load_date)
      qed
    qed
  next
    case K_source
    then show ?thesis using tot [of "source a" "source b"]
      by (simp add: ascending_le_def comparator_source)
  next
    case K_record_count
    then show ?thesis by (simp add: ascending_le_def comparator_number) linarith
  next
    case K_load_status
    then show ?thesis by (simp add: ascending_le_def comparator_boolean)
  qed
qed

lemma ascending_le_trans:
  assumes "consistent_comparator lc" and "ascending_le lc k a b" and "ascending_le lc k b c"
  shows "ascending_le lc k a c"
proof -
  have tr: "lc s t \<le> 0 \<Longrightarrow> lc t u \<le> 0 \<Longrightarrow> lc s u \<le> 0" for s t u
    using assms(1) unfolding consistent_comparator_def by blast
  show ?thesis
  proof (cases k)
    case K_load_date
    show ?thesis
    proof (cases "load_date a")
      case None
      then show ?thesis using K_load_date by (simp add: ascending_le_def comparator_load_date)
    next
      case (Some s)
      with assms(2) K_load_date obtain t where t: "load_date b = Some t" "lc s t \<le> 0"
        by (cases "load_date b") (simp_all add: ascending_le_def comparator_load_date)
      with assms(3) K_load_date obtain u where u: "load_date c = Some u" "lc t u \<le> 0"
        by (cases "load_date c") (simp_all add: ascending_le_def comparator_load_date)
      have "lc s u \<le> 0" using tr [OF t(2) u(2)] .
      then show ?thesis using K_load_date Some u(1)
        by (simp add: ascending_le_def comparator_load_date)
    qed
  next
    case K_source
    then show ?thesis using assms(2,3) tr [of "source a" "source b" "source c"]
      by (simp add: ascending_le_def comparator_source)
  next
    case K_record_count
    then show ?thesis using assms(2,3)
      by (simp add: ascending_le_def comparator_number)
  next
    case K_load_status
    then show ?thesis using assms(2,3)
      by (simp add: ascending_le_def comparator_boolean split: if_splits)
  qed
qed

lemma ascending_ge_flip:
  assumes "consistent_comparator lc" and "0 \<le> comparator lc k ascending a b"
  shows "ascending_le lc k b a"
proof -
  have fl: "0 \<le> lc s t \<Longrightarrow> lc t s \<le> 0" for s t
  proof -
    have "(lc s t < 0) = (0 < lc t s)"
      using assms(1) unfolding consistent_comparator_def by blast
    then show "0 \<le> lc s t \<Longrightarrow> lc t s \<le> 0" by auto
  qed
  show ?thesis
  proof (cases k)
    case K_load_date
    show ?thesis
    proof (cases "load_date b")
      case None
      then show ?thesis using K_load_date by (simp add: ascending_le_def comparator_load_date)
    next
      case sb: (Some t)
      show ?thesis
      proof (cases "load_date a")
        case None
        then show ?thesis using K_load_date assms(2) by (simp add: comparator_load_date)
      next
        case (Some s)
        then show ?thesis using K_load_date sb assms(2) fl [of s t]
          by (simp add: ascending_le_def comparator_load_date)
      qed
    qed
  next
    case K_source
    then show ?thesis using assms(2) fl [of "source a" "source b"]
      by (simp add: ascending_le_def comparator_source)
  next
    case K_record_count
    then show ?thesis using assms(2) by (simp add: ascending_le_def comparator_number)
  next
    case K_load_status
    then show ?thesis using assms(2)
      by (simp add: ascending_le_def comparator_boolean split: if_splits)
  qed
qed


lemma set_insert_by: "set (insert_by cmp x xs) = insert x (set xs)"
  by (induction xs) auto

lemma mset_insert_by: "mset (insert_by cmp x xs) = add_mset x (mset xs)"
  by (induction xs) auto

lemma mset_array_sort: "mset (array_sort cmp xs) = mset xs"
  by (induction xs) (auto simp: array_sort_def mset_insert_by)

lemma sorted_wrt_insert_by:
  assumes le: "\<And>x y. cmp x y \<le> 0 \<Longrightarrow> R x y"
    and gt: "\<And>x y. \<not> cmp x y \<le> 0 \<Longrightarrow> R y x"
    and tr: "\<And>x y z. R x y \<Longrightarrow> R y z \<Longrightarrow> R x z"
    and "sorted_wrt R xs"
  shows "sorted_wrt R (insert_by cmp x xs)"
  using assms(4)
proof (induction xs)
  case Nil
  then show ?case by simp
next
  case (Cons y ys)
  show ?case
  proof (cases "cmp x y \<le> 0")
    case True
    then have "R x y" by (rule le)
    moreover have "\<forall>z \<in> set ys. R x z"
      using Cons.prems \<open>R x y\<close> tr by auto
    ultimately show ?thesis using True Cons.prems by simp
  next
    case False
    then have "R y x" by (rule gt)
    then show ?thesis using False Cons by (auto simp: set_insert_by)
  qed
qed

lemma sorted_wrt_array_sort:
  assumes "\<And>x y. cmp x y \<le> 0 \<Longrightarrow> R x y"
    and "\<And>x y. \<not> cmp x y \<le> 0 \<Longrightarrow> R y x"
    and "\<And>x y z. R x y \<Longrightarrow> R y z \<Longrightarrow> R x z"
  shows "sorted_wrt R (array_sort cmp xs)"
proof (induction xs)
  case Nil
  then show ?case by (simp add: array_sort_def)
next
  case (Cons x xs)
  have "array_sort cmp (x # xs) = insert_by cmp x (array_sort cmp xs)"
    by (simp add: array_sort_def)
  then show ?case
    using sorted_wrt_insert_by [of cmp R, OF assms Cons.IH] by simp
qed

lemma sorted_ascending:
  assumes "consistent_comparator lc"
  shows "sorted_wrt (ascending_le lc k) (array_sort (comparator lc k ascending) xs)"
proof (rule sorted_wrt_array_sort)
  show "comparator lc k ascending x y \<le> 0 \<Longrightarrow> ascending_le lc k x y" for x y
    by (simp add: ascending_le_def)
  show "\<not> comparator lc k ascending x y \<le> 0 \<Longrightarrow> ascending_le lc k y x" for x y
    using ascending_le_total [OF assms, of k x y] by (simp add: ascending_le_def)
  show "ascending_le lc k x y \<Longrightarrow> ascending_le lc k y z \<Longrightarrow> ascending_le lc k x z" for x y z
    by (rule ascending_le_trans [OF assms])
qed

lemma sorted_descending:
  assumes "consistent_comparator lc"
  shows "sorted_wrt (\<lambda>a b. ascending_le lc k b a) (array_sort (comparator lc k descending) xs)"
proof (rule sorted_wrt_array_sort)
  show "comparator lc k descending x y \<le> 0 \<Longrightarrow> ascending_le lc k y x" for x y
    using ascending_ge_flip [OF assms, of k x y] by (simp add: comparator_descending)
  show "\<not> comparator lc k descending x y \<le> 0 \<Longrightarrow> ascending_le lc k x y" for x y
    by (simp add: comparator_descending ascending_le_def)
  show "ascending_le lc k y x \<Longrightarrow> ascending_le lc k z y \<Longrightarrow> ascending_le lc k z x" for x y z
    using ascending_le_trans [OF assms] by blast
qed

lemma ascending_le_null:
  "ascending_le lc k a b \<Longrightarrow> item_get b k = JNull \<Longrightarrow> item_get a k = JNull"
  by (cases "item_get a k = JNull") (simp_all add: ascending_le_def comparator_def)


lemma sorted_sort_stage:
  assumes "consistent_comparator lc"
  shows "sorted_wrt (\<lambda>x y. if dir = ascending then ascending_le lc k x y else ascending_le lc k y x)
           (sort_stage lc \<lparr>key = Some k, direction = dir\<rparr> xs)"
proof (cases dir)
  case ascending
  then show ?thesis using sorted_ascending [OF assms, of k xs] by (simp add: sort_stage_def)
next
  case descending
  then show ?thesis using sorted_descending [OF assms, of k xs] by (simp add: sort_stage_def)
qed

lemma mset_sort_stage: "mset (sort_stage lc cfg xs) = mset xs"
  by (simp add: sort_stage_def mset_array_sort split: option.splits)

lemma sorted_wrt_adjacent:
  "sorted_wrt R xs \<Longrightarrow> Suc i < length xs \<Longrightarrow> R (xs ! i) (xs ! Suc i)"
  by (simp add: sorted_wrt_iff_nth_less)

lemma ascending_le_flip:
  assumes "consistent_comparator lc" and "ascending_le lc k y x"
    and "\<not> (item_get x k = JNull \<and> item_get y k = JNull)"
  shows "0 \<le> comparator lc k ascending x y"
proof -
  have fl: "lc t s \<le> 0 \<Longrightarrow> 0 \<le> lc s t" for s t
  proof -
    have "(lc s t < 0) = (0 < lc t s)"
      using assms(1) unfolding consistent_comparator_def by blast
    then show "lc t s \<le> 0 \<Longrightarrow> 0 \<le> lc s t" by auto
  qed
  show ?thesis
  proof (cases k)
    case K_load_date
    show ?thesis
    proof (cases "load_date x")
      case None
      then have "load_date y \<noteq> None" using assms(3) K_load_date
        by (cases "load_date y") simp_all
      then show ?thesis using assms(2) None K_load_date
        by (cases "load_date y") (simp_all add: ascending_le_def comparator_load_date)
    next
      case sx: (Some s)
      show ?thesis
      proof (cases "load_date y")
        case None
        then show ?thesis using K_load_date sx by (simp add: comparator_load_date)
      next
        case (Some t)
        then show ?thesis using K_load_date sx assms(2) fl [of t s]
          by (simp add: ascending_le_def comparator_load_date)
      qed
    qed
  next
    case K_source
    then show ?thesis using assms(2) fl [of "source y" "source x"]
      by (simp add: ascending_le_def comparator_source)
  next
    case K_record_count
    then show ?thesis using assms(2) by (simp add: ascending_le_def comparator_number)
  next
    case K_load_status
    then show ?thesis using assms(2)
      by (simp add: ascending_le_def comparator_boolean split: if_splits)
  qed
qed

lemma adjacent_comparator:
  assumes "consistent_comparator lc"
    and "if dir = ascending then ascending_le lc k x y else ascending_le lc k y x"
    and "\<not> (item_get x k = JNull \<and> item_get y k = JNull)"
  shows "comparator lc k dir x y \<le> 0"
proof (cases dir)
  case ascending
  then show ?thesis using assms(2) by (simp add: ascending_le_def)
next
  case descending
  then have "ascending_le lc k y x" using assms(2) by simp
  then have "0 \<le> comparator lc k ascending x y"
    using ascending_le_flip [OF assms(1) _ assms(3)] by blast
  then show ?thesis using descending by (simp add: comparator_descending)
qed

text \<open>
  Claim C2. The sort stage orders the filtered array by the comparator: under
  ascending a null value is less than every other value, numbers compare by their
  difference, booleans with false before true, every other value (the date string
  too) by \<^verbatim>\<open>localeCompare\<close>, and under descending the ascending result is negated.
  For a consistent \<^verbatim>\<open>localeCompare\<close> the output \<open>out\<close> is a rearrangement of the
  input in which the rows with a null key come before all others when ascending and
  after them when descending, and every adjacent pair is in the order of the
  direction: not decreasing in the ascending order of the column when ascending, not
  increasing when descending. For an adjacent pair whose keys are not both null this
  is the comparator of the direction itself answering "not after"; on two null keys
  the comparator answers "before" under ascending and "after" under descending
  whichever way round they are given, and the two rows are equal in the order.
\<close>

theorem C2_sort_stage:
  assumes "consistent_comparator lc"
    and "out = sort_stage lc \<lparr>key = Some k, direction = dir\<rparr> xs"
  shows "(item_get a k = JNull \<longrightarrow> comparator lc k ascending a b = - 1)
    \<and> (item_get a k \<noteq> JNull \<and> item_get b k = JNull \<longrightarrow> comparator lc k ascending a b = 1)
    \<and> comparator lc K_record_count ascending a b = record_count a - record_count b
    \<and> comparator lc K_load_status ascending a b
        = (if load_status a = load_status b then 0 else if load_status a then 1 else - 1)
    \<and> comparator lc K_source ascending a b = lc (source a) (source b)
    \<and> (\<forall>s t. load_date a = Some s \<and> load_date b = Some t
          \<longrightarrow> comparator lc K_load_date ascending a b = lc s t)
    \<and> comparator lc k descending a b = - comparator lc k ascending a b
    \<and> mset out = mset xs
    \<and> (\<forall>i j. i < j \<and> j < length out \<longrightarrow>
          (if dir = ascending
           then item_get (out ! j) k = JNull \<longrightarrow> item_get (out ! i) k = JNull
           else item_get (out ! i) k = JNull \<longrightarrow> item_get (out ! j) k = JNull))
    \<and> (\<forall>i. Suc i < length out \<longrightarrow>
          (if dir = ascending
           then ascending_le lc k (out ! i) (out ! Suc i)
           else ascending_le lc k (out ! Suc i) (out ! i)))
    \<and> (\<forall>i. Suc i < length out
            \<and> \<not> (item_get (out ! i) k = JNull \<and> item_get (out ! Suc i) k = JNull)
          \<longrightarrow> comparator lc k dir (out ! i) (out ! Suc i) \<le> 0)"
proof -
  let ?R = "\<lambda>x y. if dir = ascending then ascending_le lc k x y else ascending_le lc k y x"
  have srt: "sorted_wrt ?R out"
    unfolding assms(2) by (rule sorted_sort_stage [OF assms(1)])
  have c1: "item_get a k = JNull \<longrightarrow> comparator lc k ascending a b = - 1"
    by (simp add: comparator_null_left)
  have c2: "item_get a k \<noteq> JNull \<and> item_get b k = JNull \<longrightarrow> comparator lc k ascending a b = 1"
    by (simp add: comparator_null_right)
  have c6: "\<forall>s t. load_date a = Some s \<and> load_date b = Some t
          \<longrightarrow> comparator lc K_load_date ascending a b = lc s t"
    by (simp add: comparator_date)
  have c8: "mset out = mset xs"
    unfolding assms(2) by (rule mset_sort_stage)
  have c9: "\<forall>i j. i < j \<and> j < length out \<longrightarrow>
          (if dir = ascending
           then item_get (out ! j) k = JNull \<longrightarrow> item_get (out ! i) k = JNull
           else item_get (out ! i) k = JNull \<longrightarrow> item_get (out ! j) k = JNull)"
  proof (intro allI impI)
    fix i j assume "i < j \<and> j < length out"
    then have "?R (out ! i) (out ! j)"
      using srt by (simp add: sorted_wrt_iff_nth_less)
    then show "if dir = ascending
           then item_get (out ! j) k = JNull \<longrightarrow> item_get (out ! i) k = JNull
           else item_get (out ! i) k = JNull \<longrightarrow> item_get (out ! j) k = JNull"
      using ascending_le_null [of lc k "out ! i" "out ! j"]
        ascending_le_null [of lc k "out ! j" "out ! i"]
      by (cases "dir = ascending") simp_all
  qed
  have c10: "\<forall>i. Suc i < length out \<longrightarrow>
          (if dir = ascending
           then ascending_le lc k (out ! i) (out ! Suc i)
           else ascending_le lc k (out ! Suc i) (out ! i))"
    using sorted_wrt_adjacent [OF srt] by simp
  have c11: "\<forall>i. Suc i < length out
            \<and> \<not> (item_get (out ! i) k = JNull \<and> item_get (out ! Suc i) k = JNull)
          \<longrightarrow> comparator lc k dir (out ! i) (out ! Suc i) \<le> 0"
  proof (intro allI impI)
    fix i
    assume h: "Suc i < length out
            \<and> \<not> (item_get (out ! i) k = JNull \<and> item_get (out ! Suc i) k = JNull)"
    then have "?R (out ! i) (out ! Suc i)"
      using sorted_wrt_adjacent [OF srt] by blast
    then show "comparator lc k dir (out ! i) (out ! Suc i) \<le> 0"
      using adjacent_comparator [OF assms(1), of dir k "out ! i" "out ! Suc i"] h by blast
  qed
  show ?thesis
    using c1 c2 comparator_number [of lc a b] comparator_boolean [of lc a b]
      comparator_source [of lc a b] c6 comparator_descending [of lc k a b] c8 c9 c10 c11
    by blast
qed

theorem C2_sort_stage_witness:
  "consistent_comparator code_unit_compare
   \<and> sort_stage code_unit_compare \<lparr>key = Some K_load_date, direction = descending\<rparr>
        [scenario_rowB, scenario_rowA] = [scenario_rowA, scenario_rowB]
   \<and> mset [scenario_rowA, scenario_rowB] = mset [scenario_rowB, scenario_rowA]
   \<and> ascending_le code_unit_compare K_load_date scenario_rowB scenario_rowA
   \<and> comparator code_unit_compare K_load_date descending scenario_rowB scenario_rowA
       = - comparator code_unit_compare K_load_date ascending scenario_rowB scenario_rowA"
proof -
  have h: "consistent_comparator code_unit_compare"
    by (rule consistent_code_unit_compare)
  have e: "[scenario_rowA, scenario_rowB]
      = sort_stage code_unit_compare \<lparr>key = Some K_load_date, direction = descending\<rparr>
          [scenario_rowB, scenario_rowA]"
    by (simp add: sort_stage_def array_sort_def comparator_def scenario_rowA_def scenario_rowB_def)
  note t = C2_sort_stage [OF h e, of scenario_rowB scenario_rowA]
  have m: "mset [scenario_rowA, scenario_rowB] = mset [scenario_rowB, scenario_rowA]"
    using t by (elim conjE)
  have d: "comparator code_unit_compare K_load_date descending scenario_rowB scenario_rowA
       = - comparator code_unit_compare K_load_date ascending scenario_rowB scenario_rowA"
    using t by (elim conjE)
  have "Suc 0 < length [scenario_rowA, scenario_rowB]" by simp
  then have a: "ascending_le code_unit_compare K_load_date scenario_rowB scenario_rowA"
    using t by (elim conjE) force
  show ?thesis using h e [symmetric] m a d by blast
qed

section \<open>The sort-configuration state machine\<close>

text \<open>
  Claim C5. The sort configuration starts at (load_date, descending). A header click on
  a column that is not the current key installs that column with direction ascending;
  a click on the current key while ascending gives descending; a click on the current
  key while descending gives ascending again.
\<close>

theorem C5_sort_state_machine:
  "initial_sortConfig = \<lparr>key = Some K_load_date, direction = descending\<rparr>
   \<and> (key cfg \<noteq> Some k \<longrightarrow>
        handleSort cfg k = \<lparr>key = Some k, direction = ascending\<rparr>)
   \<and> (key cfg = Some k \<and> direction cfg = ascending \<longrightarrow>
        handleSort cfg k = \<lparr>key = Some k, direction = descending\<rparr>)
   \<and> (key cfg = Some k \<and> direction cfg = descending \<longrightarrow>
        handleSort cfg k = \<lparr>key = Some k, direction = ascending\<rparr>)"
  by (simp add: initial_sortConfig_def handleSort_def)

theorem C5_sort_state_machine_witness:
  "handleSort initial_sortConfig K_record_count = \<lparr>key = Some K_record_count, direction = ascending\<rparr>
   \<and> handleSort \<lparr>key = Some K_record_count, direction = ascending\<rparr> K_record_count
       = \<lparr>key = Some K_record_count, direction = descending\<rparr>
   \<and> handleSort \<lparr>key = Some K_record_count, direction = descending\<rparr> K_record_count
       = \<lparr>key = Some K_record_count, direction = ascending\<rparr>
   \<and> handleSort \<lparr>key = Some K_record_count, direction = ascending\<rparr> K_source
       = \<lparr>key = Some K_source, direction = ascending\<rparr>"
proof -
  have h1: "key initial_sortConfig \<noteq> Some K_record_count"
    by (simp add: initial_sortConfig_def)
  have c1: "handleSort initial_sortConfig K_record_count
      = \<lparr>key = Some K_record_count, direction = ascending\<rparr>"
    using C5_sort_state_machine [of initial_sortConfig K_record_count] h1 by blast
  have h2: "key \<lparr>key = Some K_record_count, direction = ascending\<rparr> = Some K_record_count
      \<and> direction \<lparr>key = Some K_record_count, direction = ascending\<rparr> = ascending"
    by simp
  have c2: "handleSort \<lparr>key = Some K_record_count, direction = ascending\<rparr> K_record_count
      = \<lparr>key = Some K_record_count, direction = descending\<rparr>"
    using C5_sort_state_machine
      [of "\<lparr>key = Some K_record_count, direction = ascending\<rparr>" K_record_count] h2
    by blast
  have h3: "key \<lparr>key = Some K_record_count, direction = descending\<rparr> = Some K_record_count
      \<and> direction \<lparr>key = Some K_record_count, direction = descending\<rparr> = descending"
    by simp
  have c3: "handleSort \<lparr>key = Some K_record_count, direction = descending\<rparr> K_record_count
      = \<lparr>key = Some K_record_count, direction = ascending\<rparr>"
    using C5_sort_state_machine
      [of "\<lparr>key = Some K_record_count, direction = descending\<rparr>" K_record_count] h3
    by blast
  have h4: "key \<lparr>key = Some K_record_count, direction = ascending\<rparr> \<noteq> Some K_source"
    by simp
  have c4: "handleSort \<lparr>key = Some K_record_count, direction = ascending\<rparr> K_source
      = \<lparr>key = Some K_source, direction = ascending\<rparr>"
    using C5_sort_state_machine
      [of "\<lparr>key = Some K_record_count, direction = ascending\<rparr>" K_source] h4
    by blast
  show ?thesis using c1 c2 c3 c4 by blast
qed

section \<open>Reachable states\<close>

lemma key_handle_event:
  "key (sortConfig st) \<noteq> None \<Longrightarrow> key (sortConfig (handle_event st ev)) \<noteq> None"
  by (cases ev) (simp_all add: handleSort_def)

lemma key_run_events:
  "key (sortConfig st) \<noteq> None \<Longrightarrow> key (sortConfig (run_events st evs)) \<noteq> None"
  unfolding run_events_def
proof (induction evs arbitrary: st)
  case Nil
  then show ?case by simp
next
  case (Cons ev evs)
  have "key (sortConfig (handle_event st ev)) \<noteq> None"
    using Cons.prems by (rule key_handle_event)
  then have "key (sortConfig (foldl handle_event (handle_event st ev) evs)) \<noteq> None"
    by (rule Cons.IH)
  then show ?case by simp
qed

text \<open>
  The filter object of every reachable state holds each key at most once, as the
  claim about the filter stage supposes of a filter mapping.
\<close>

lemma keys_handleFilterChange:
  "set (map fst (handleFilterChange fv k v)) = insert k (set (map fst fv))"
proof (induction fv)
  case Nil
  then show ?case by simp
next
  case (Cons e fv)
  obtain k' v' where e: "e = (k', v')" by (cases e)
  show ?case
  proof (cases "k' = k")
    case True
    then show ?thesis using e by auto
  next
    case False
    then show ?thesis using e Cons.IH by auto
  qed
qed

lemma distinct_handleFilterChange:
  "distinct (map fst fv) \<Longrightarrow> distinct (map fst (handleFilterChange fv k v))"
proof (induction fv)
  case Nil
  then show ?case by simp
next
  case (Cons e fv)
  obtain k' v' where e: "e = (k', v')" by (cases e)
  show ?case
  proof (cases "k' = k")
    case True
    then show ?thesis using Cons.prems e by simp
  next
    case False
    have "k' \<notin> set (map fst (handleFilterChange fv k v))"
      using Cons.prems e False unfolding keys_handleFilterChange by simp
    then show ?thesis using Cons e False by simp
  qed
qed

lemma distinct_handle_event:
  "distinct (map fst (filterValues st)) \<Longrightarrow> distinct (map fst (filterValues (handle_event st ev)))"
  by (cases ev) (simp_all add: distinct_handleFilterChange)

lemma distinct_run_events:
  "distinct (map fst (filterValues st)) \<Longrightarrow> distinct (map fst (filterValues (run_events st evs)))"
  unfolding run_events_def
proof (induction evs arbitrary: st)
  case Nil
  then show ?case by simp
next
  case (Cons ev evs)
  have "distinct (map fst (filterValues (handle_event st ev)))"
    using Cons.prems by (rule distinct_handle_event)
  then have "distinct (map fst (filterValues (foldl handle_event (handle_event st ev) evs)))"
    by (rule Cons.IH)
  then show ?case by simp
qed

lemma reachable_filters_distinct:
  "distinct (map fst (filterValues (run_events initial_state evs)))"
  by (rule distinct_run_events) (simp add: initial_state_def)

text \<open>
  Claim C9. The sort key is not null in the initial state, \<^verbatim>\<open>handleSort\<close> always
  installs the clicked column as the key, and so the key is not null after any
  sequence of header clicks and filter inputs: in every reachable state the
  derivation takes the sorting branch, never the pass-through of a null key.
\<close>

theorem C9_sort_key_never_null:
  "key (sortConfig initial_state) \<noteq> None
   \<and> key (handleSort cfg k) = Some k
   \<and> key (sortConfig (run_events initial_state evs)) \<noteq> None
   \<and> (\<exists>k'. key (sortConfig (run_events initial_state evs)) = Some k'
         \<and> processedData lc data (sortConfig (run_events initial_state evs))
               (filterValues (run_events initial_state evs))
             = array_sort (comparator lc k' (direction (sortConfig (run_events initial_state evs))))
                 (filter_stage (filterValues (run_events initial_state evs)) data))"
proof -
  have i: "key (sortConfig initial_state) \<noteq> None"
    by (simp add: initial_state_def initial_sortConfig_def)
  have r: "key (sortConfig (run_events initial_state evs)) \<noteq> None"
    by (rule key_run_events [OF i])
  then obtain k' where k': "key (sortConfig (run_events initial_state evs)) = Some k'"
    by blast
  have p: "processedData lc data (sortConfig (run_events initial_state evs))
               (filterValues (run_events initial_state evs))
             = array_sort (comparator lc k' (direction (sortConfig (run_events initial_state evs))))
                 (filter_stage (filterValues (run_events initial_state evs)) data)"
    by (simp add: processedData_def sort_stage_def k')
  have h: "key (handleSort cfg k) = Some k"
    by (simp add: handleSort_def)
  show ?thesis using i h r k' p by blast
qed

section \<open>formatDate\<close>

lemma formatDate_invalid:
  assumes "s \<noteq> []" and "Date_parse (parse_fallback rt) s = None"
  shows "formatDate rt (Some s) = ''Invalid Date''"
  using assms
  by (simp add: formatDate_def formatDate_try_def new_Date_def getMinutes_def
      getTimezoneOffset_def js_plus_def setMinutes_def toLocaleDateString_en_CA_def)

lemma formatDate_try_never_throws: "\<exists>shown. formatDate_try rt s = Inr shown"
  by (simp add: formatDate_try_def Let_def)

text \<open>
  Claim C3. For a null, undefined or empty input \<^verbatim>\<open>formatDate\<close> returns "N/A". For a
  non-empty string that fails to parse it does not throw, and what it returns is the
  string "Invalid Date": \<^verbatim>\<open>new Date\<close> and \<^verbatim>\<open>toLocaleDateString\<close> do not throw on an
  invalid date, so the \<^verbatim>\<open>catch\<close> handler that would return the raw string is never
  entered. The claim says the raw string is returned.
\<close>

theorem C3_formatDate_fallback:
  "formatDate rt None = ''N/A''
   \<and> formatDate rt (Some []) = ''N/A''
   \<and> (s \<noteq> [] \<and> Date_parse (parse_fallback rt) s = None
        \<longrightarrow> formatDate rt (Some s) = ''Invalid Date'')"
  using formatDate_invalid [of s rt] by (simp add: formatDate_def)

lemma not_a_date: "Date_parse (\<lambda>s. None) ''not-a-date'' = None"
  by code_simp

theorem C3_formatDate_fallback_witness:
  "''not-a-date'' \<noteq> []
   \<and> Date_parse (parse_fallback example_runtime) ''not-a-date'' = None
   \<and> formatDate example_runtime (Some ''not-a-date'') = ''Invalid Date''
   \<and> formatDate example_runtime (Some ''not-a-date'') \<noteq> ''not-a-date''"
proof -
  have p: "Date_parse (parse_fallback example_runtime) ''not-a-date'' = None"
    using not_a_date by (simp add: example_runtime_def)
  have n: "''not-a-date'' \<noteq> []" by simp
  have "formatDate example_runtime (Some ''not-a-date'') = ''Invalid Date''"
    using C3_formatDate_fallback [of example_runtime "''not-a-date''"] p n by blast
  then show ?thesis using p by simp
qed








section \<open>Rendering\<close>






text \<open>
  Claim C10. The filter on the record_count column matches against the plain decimal
  \<^verbatim>\<open>String(record_count)\<close>, not against what the cell shows through
  \<^verbatim>\<open>toLocaleString()\<close>: for every row with record_count 1000 the filter text "1000"
  matches and "1,000" does not, while the cell shows the runtime's number format of
  1000, which is "1,000" in the en-US format.
\<close>

theorem C10_count_filter_plain_decimal:
  "filter_callback K_record_count (toLowerCase ''1000'') (item\<lparr>record_count := 1000\<rparr>)
   \<and> \<not> filter_callback K_record_count (toLowerCase ''1,000'') (item\<lparr>record_count := 1000\<rparr>)
   \<and> filter_stage [(K_record_count, ''1000'')] [item\<lparr>record_count := 1000\<rparr>]
       = [item\<lparr>record_count := 1000\<rparr>]
   \<and> filter_stage [(K_record_count, ''1,000'')] [item\<lparr>record_count := 1000\<rparr>] = []
   \<and> js_String (JNumber 1000) = ''1000''
   \<and> render_row rt (item\<lparr>record_count := 1000\<rparr>) ! 2 = toLocaleString rt 1000
   \<and> toLocaleString_en_US 1000 = ''1,000''"
proof -
  have s: "number_to_string 1000 = ''1000''"
    by (simp add: number_to_string_def string_of_nat.simps digit_char_def)
  have a: "filter_callback K_record_count (toLowerCase ''1000'') (item\<lparr>record_count := 1000\<rparr>)"
    by (simp add: filter_callback_def toLowerCase_def lower_char_def s)
  have b: "\<not> filter_callback K_record_count (toLowerCase ''1,000'') (item\<lparr>record_count := 1000\<rparr>)"
    by (simp add: filter_callback_def toLowerCase_def lower_char_def s)
  have c: "filter_stage [(K_record_count, ''1000'')] [item\<lparr>record_count := 1000\<rparr>]
       = [item\<lparr>record_count := 1000\<rparr>]"
    using a by (simp add: filter_stage_def)
  have d: "filter_stage [(K_record_count, ''1,000'')] [item\<lparr>record_count := 1000\<rparr>] = []"
    using b by (simp add: filter_stage_def)
  have e: "render_row rt (item\<lparr>record_count := 1000\<rparr>) ! 2 = toLocaleString rt 1000"
    by (simp add: render_row_def)
  have f: "toLocaleString_en_US 1000 = ''1,000''"
    by (simp add: toLocaleString_en_US_def string_of_nat.simps digit_char_def)
  show ?thesis using a b c d e f s by simp
qed

section \<open>fetchBigQueryData\<close>

text \<open>
  Claim C8. When any of the four configuration values is absent,
  \<^verbatim>\<open>fetchBigQueryData\<close> throws the configuration error with its message and runs no
  query. When all four are set and the query fails with an error, it throws one
  error whose message is "Failed to fetch data from BigQuery." followed by the
  failure's message (for a thrown value that is not an error, by its string), having
  run the query once.
\<close>

theorem C8_fetch_errors:
  "((BIGQUERY_DATASET env = None \<or> BIGQUERY_TABLE env = None \<or> GCP_PROJECT_ID env = None
       \<or> BIGQUERY_LOCATION env = None)
      \<longrightarrow> fetchBigQueryData client env
            = (Inl (Error (''Missing required environment variables for BigQuery connection '' @
                 ''(GCP_PROJECT_ID, BIGQUERY_DATASET, BIGQUERY_TABLE, BIGQUERY_LOCATION)'')), []))
   \<and> (BIGQUERY_DATASET env = Some datasetId \<and> BIGQUERY_TABLE env = Some tableId
        \<and> GCP_PROJECT_ID env = Some projectId \<and> BIGQUERY_LOCATION env = Some loc
        \<and> datasetId \<noteq> [] \<and> tableId \<noteq> [] \<and> projectId \<noteq> [] \<and> loc \<noteq> []
        \<and> client \<lparr>query = query_text projectId datasetId tableId, location = loc\<rparr>
            = Inl (ErrorObject message)
      \<longrightarrow> fetchBigQueryData client env
            = (Inl (Error (''Failed to fetch data from BigQuery. '' @ message)),
               [QueryRun \<lparr>query = query_text projectId datasetId tableId, location = loc\<rparr>,
                ConsoleError]))
   \<and> (BIGQUERY_DATASET env = Some datasetId \<and> BIGQUERY_TABLE env = Some tableId
        \<and> GCP_PROJECT_ID env = Some projectId \<and> BIGQUERY_LOCATION env = Some loc
        \<and> datasetId \<noteq> [] \<and> tableId \<noteq> [] \<and> projectId \<noteq> [] \<and> loc \<noteq> []
        \<and> client \<lparr>query = query_text projectId datasetId tableId, location = loc\<rparr>
            = Inl (OtherValue shown)
      \<longrightarrow> fetchBigQueryData client env
            = (Inl (Error (''Failed to fetch data from BigQuery. '' @ shown)),
               [QueryRun \<lparr>query = query_text projectId datasetId tableId, location = loc\<rparr>,
                ConsoleError]))"
proof -
  have a: "fetchBigQueryData client env = missing_configuration"
    if "BIGQUERY_DATASET env = None \<or> BIGQUERY_TABLE env = None \<or> GCP_PROJECT_ID env = None
       \<or> BIGQUERY_LOCATION env = None"
    using that by (auto simp: fetchBigQueryData_def split: option.splits)
  have b: "fetchBigQueryData client env
            = (Inl (Error (''Failed to fetch data from BigQuery. '' @ message)),
               [QueryRun \<lparr>query = query_text projectId datasetId tableId, location = loc\<rparr>,
                ConsoleError])"
    if "BIGQUERY_DATASET env = Some datasetId \<and> BIGQUERY_TABLE env = Some tableId
        \<and> GCP_PROJECT_ID env = Some projectId \<and> BIGQUERY_LOCATION env = Some loc
        \<and> datasetId \<noteq> [] \<and> tableId \<noteq> [] \<and> projectId \<noteq> [] \<and> loc \<noteq> []
        \<and> client \<lparr>query = query_text projectId datasetId tableId, location = loc\<rparr>
            = Inl (ErrorObject message)"
    using that by (simp add: fetchBigQueryData_def)
  have c: "fetchBigQueryData client env
            = (Inl (Error (''Failed to fetch data from BigQuery. '' @ shown)),
               [QueryRun \<lparr>query = query_text projectId datasetId tableId, location = loc\<rparr>,
                ConsoleError])"
    if "BIGQUERY_DATASET env = Some datasetId \<and> BIGQUERY_TABLE env = Some tableId
        \<and> GCP_PROJECT_ID env = Some projectId \<and> BIGQUERY_LOCATION env = Some loc
        \<and> datasetId \<noteq> [] \<and> tableId \<noteq> [] \<and> projectId \<noteq> [] \<and> loc \<noteq> []
        \<and> client \<lparr>query = query_text projectId datasetId tableId, location = loc\<rparr>
            = Inl (OtherValue shown)"
    using that by (simp add: fetchBigQueryData_def)
  show ?thesis using a b c by (simp add: missing_configuration_def)
qed

theorem C8_fetch_errors_witness:
  "BIGQUERY_LOCATION (example_env\<lparr>BIGQUERY_LOCATION := None\<rparr>) = None
   \<and> fetchBigQueryData failing_client (example_env\<lparr>BIGQUERY_LOCATION := None\<rparr>)
       = (Inl (Error (''Missing required environment variables for BigQuery connection '' @
            ''(GCP_PROJECT_ID, BIGQUERY_DATASET, BIGQUERY_TABLE, BIGQUERY_LOCATION)'')), [])
   \<and> fetchBigQueryData failing_client example_env
       = (Inl (Error ''Failed to fetch data from BigQuery. quota exceeded''),
          [QueryRun \<lparr>query = query_text ''acme'' ''reporting'' ''loads'', location = ''EU''\<rparr>,
           ConsoleError])"
proof -
  have m: "BIGQUERY_LOCATION (example_env\<lparr>BIGQUERY_LOCATION := None\<rparr>) = None"
    by simp
  have a: "fetchBigQueryData failing_client (example_env\<lparr>BIGQUERY_LOCATION := None\<rparr>)
       = (Inl (Error (''Missing required environment variables for BigQuery connection '' @
            ''(GCP_PROJECT_ID, BIGQUERY_DATASET, BIGQUERY_TABLE, BIGQUERY_LOCATION)'')), [])"
    using C8_fetch_errors [where env = "example_env\<lparr>BIGQUERY_LOCATION := None\<rparr>"
        and client = failing_client] m
    by blast
  have h: "BIGQUERY_DATASET example_env = Some ''reporting'' \<and> BIGQUERY_TABLE example_env = Some ''loads''
        \<and> GCP_PROJECT_ID example_env = Some ''acme'' \<and> BIGQUERY_LOCATION example_env = Some ''EU''
        \<and> ''reporting'' \<noteq> [] \<and> ''loads'' \<noteq> [] \<and> ''acme'' \<noteq> [] \<and> ''EU'' \<noteq> []
        \<and> failing_client \<lparr>query = query_text ''acme'' ''reporting'' ''loads'', location = ''EU''\<rparr>
            = Inl (ErrorObject ''quota exceeded'')"
    by (simp add: example_env_def failing_client_def)
  have b: "fetchBigQueryData failing_client example_env
       = (Inl (Error (''Failed to fetch data from BigQuery. '' @ ''quota exceeded'')),
          [QueryRun \<lparr>query = query_text ''acme'' ''reporting'' ''loads'', location = ''EU''\<rparr>,
           ConsoleError])"
    using C8_fetch_errors [where env = example_env and client = failing_client
        and datasetId = "''reporting''" and tableId = "''loads''" and projectId = "''acme''"
        and loc = "''EU''" and message = "''quota exceeded''"] h
    by blast
  show ?thesis using m a b by simp
qed

section \<open>The derivation writes only to arrays of its own\<close>

lemma frame_refl: "store_ok s \<Longrightarrow> n \<le> next_addr s \<Longrightarrow> frame n s s"
  by (simp add: frame_def)

lemma frame_trans: "frame n s s' \<Longrightarrow> frame n s' s'' \<Longrightarrow> frame n s s''"
  by (simp add: frame_def)

lemma new_array_frame:
  assumes "store_ok s" and "n \<le> next_addr s" and "new_array refs s = (a, s')"
  shows "frame n s s' \<and> n \<le> a \<and> arrays s' a = Some refs"
proof -
  have a: "a = next_addr s"
    and s': "s' = s\<lparr>arrays := (arrays s)(next_addr s \<mapsto> refs), next_addr := Suc (next_addr s)\<rparr>"
    using assms(3) by (auto simp: new_array_def)
  have ok: "store_ok s'"
    using assms(1) unfolding s' store_ok_def by (auto simp: less_Suc_eq)
  show ?thesis
    using assms(2) ok unfolding frame_def a s' by simp
qed

lemma map_objects_filter:
  "map obj (filter (\<lambda>r. f (obj r)) refs) = filter f (map obj refs)"
  by (induction refs) simp_all

lemma map_insert_by:
  "map obj (insert_by (\<lambda>r1 r2. cmp (obj r1) (obj r2)) r refs) = insert_by cmp (obj r) (map obj refs)"
  by (induction refs) simp_all

lemma map_array_sort:
  "map obj (array_sort (\<lambda>r1 r2. cmp (obj r1) (obj r2)) refs) = array_sort cmp (map obj refs)"
  by (induction refs) (simp_all add: array_sort_def map_insert_by)

lemma heap_apply_filters_frame:
  assumes "store_ok s" and "n \<le> next_addr s" and "n \<le> a" and "arrays s a = Some refs"
  shows "\<exists>a' s' refs'. heap_apply_filters fv a s = Some (a', s') \<and> frame n s s' \<and> n \<le> a'
           \<and> arrays s' a' = Some refs'
           \<and> map (objects s) refs' = apply_filters fv (map (objects s) refs)"
  using assms
proof (induction fv arbitrary: a s refs)
  case Nil
  then show ?case by (simp add: frame_refl)
next
  case (Cons e fv)
  obtain k v where e: "e = (k, v)" by (cases e)
  show ?case
  proof (cases "v = []")
    case True
    then show ?thesis using Cons.IH [OF Cons.prems] e by simp
  next
    case False
    let ?f = "filter_callback k (toLowerCase v)"
    let ?refs1 = "filter (\<lambda>r. ?f (objects s r)) refs"
    obtain a1 s1 where n1: "new_array ?refs1 s = (a1, s1)" by (cases "new_array ?refs1 s")
    have hf: "heap_filter ?f a s = Some (a1, s1)"
      using Cons.prems(4) n1 by (simp add: heap_filter_def)
    have f1: "frame n s s1" and a1: "n \<le> a1" and r1: "arrays s1 a1 = Some ?refs1"
      using new_array_frame [OF Cons.prems(1,2) n1] by simp_all
    have ok1: "store_ok s1" and nx1: "n \<le> next_addr s1" and ob1: "objects s1 = objects s"
      using f1 by (simp_all add: frame_def)
    obtain a' s' refs' where
      r: "heap_apply_filters fv a1 s1 = Some (a', s')" "frame n s1 s'" "n \<le> a'"
         "arrays s' a' = Some refs'"
         "map (objects s1) refs' = apply_filters fv (map (objects s1) ?refs1)"
      using Cons.IH [OF ok1 nx1 a1 r1] by blast
    have "heap_apply_filters (e # fv) a s = Some (a', s')"
      using False e hf r(1) by simp
    moreover have "frame n s s'" using f1 r(2) by (rule frame_trans)
    moreover have "map (objects s) refs' = apply_filters (e # fv) (map (objects s) refs)"
      using r(5) False e by (simp add: ob1 map_objects_filter)
    ultimately show ?thesis using r(3,4) by blast
  qed
qed

text \<open>
  Claim C7. Deriving the processed view does not mutate its inputs: in a store where
  the input array is allocated, the derivation returns, its result is an array other
  than the input array, the input array holds the same references in the same order
  afterwards, as does every array that existed before, and no row object has
  changed. The derived array holds the filtered-then-sorted rows of the input.
\<close>

theorem C7_inputs_not_mutated:
  assumes "store_ok s" and "arrays s data = Some refs"
  shows "\<exists>result s'. heap_processedData lc data cfg fv s = Some (result, s')
     \<and> result \<noteq> data
     \<and> arrays s' data = Some refs
     \<and> objects s' = objects s
     \<and> (\<forall>a. a < next_addr s \<longrightarrow> arrays s' a = arrays s a)
     \<and> contents s' result = Some (processedData lc (map (objects s) refs) cfg fv)"
proof -
  let ?n = "next_addr s"
  have dn: "data < ?n"
    using assms unfolding store_ok_def by auto
  obtain a0 s0 where n0: "new_array refs s = (a0, s0)" by (cases "new_array refs s")
  have sp: "heap_spread data s = Some (a0, s0)"
    using assms(2) n0 by (simp add: heap_spread_def)
  have f0: "frame ?n s s0" and a0: "?n \<le> a0" and r0: "arrays s0 a0 = Some refs"
    using new_array_frame [OF assms(1) le_refl n0] by simp_all
  have ok0: "store_ok s0" and nx0: "?n \<le> next_addr s0" and ob0: "objects s0 = objects s"
    using f0 by (simp_all add: frame_def)
  obtain a1 s1 refs1 where
    r: "heap_apply_filters fv a0 s0 = Some (a1, s1)" "frame ?n s0 s1" "?n \<le> a1"
       "arrays s1 a1 = Some refs1"
       "map (objects s0) refs1 = apply_filters fv (map (objects s0) refs)"
    using heap_apply_filters_frame [OF ok0 nx0 a0 r0] by blast
  have f1: "frame ?n s s1" using f0 r(2) by (rule frame_trans)
  have ob1: "objects s1 = objects s" using f1 by (simp add: frame_def)
  have c1: "map (objects s) refs1 = filter_stage fv (map (objects s) refs)"
    using r(5) by (simp add: ob0 filter_stage_def)
  have ne: "a1 \<noteq> data" using dn r(3) by simp
  show ?thesis
  proof (cases "key cfg")
    case None
    have "heap_processedData lc data cfg fv s = Some (a1, s1)"
      using sp r(1) None by (simp add: heap_processedData_def)
    moreover have "contents s1 a1 = Some (processedData lc (map (objects s) refs) cfg fv)"
      using r(4) c1 None by (simp add: contents_def ob1 processedData_def sort_stage_def)
    moreover have "arrays s1 data = Some refs"
      using f1 dn assms(2) by (simp add: frame_def)
    moreover have "\<forall>a. a < ?n \<longrightarrow> arrays s1 a = arrays s a"
      using f1 by (simp add: frame_def)
    ultimately show ?thesis using ne ob1 by blast
  next
    case (Some k)
    let ?cmp = "comparator lc k (direction cfg)"
    let ?sorted = "array_sort (\<lambda>r1 r2. ?cmp (objects s1 r1) (objects s1 r2)) refs1"
    let ?s2 = "s1\<lparr>arrays := (arrays s1)(a1 \<mapsto> ?sorted)\<rparr>"
    have hs: "heap_sort ?cmp a1 s1 = Some ?s2"
      using r(4) by (simp add: heap_sort_def)
    have "heap_processedData lc data cfg fv s = Some (a1, ?s2)"
      using sp r(1) Some hs by (simp add: heap_processedData_def)
    moreover have "contents ?s2 a1 = Some (processedData lc (map (objects s) refs) cfg fv)"
      using c1 Some
      by (simp add: contents_def processedData_def sort_stage_def map_array_sort ob1)
    moreover have "arrays ?s2 data = Some refs"
      using f1 dn assms(2) ne by (simp add: frame_def)
    moreover have "\<forall>a. a < ?n \<longrightarrow> arrays ?s2 a = arrays s a"
      using f1 r(3) by (simp add: frame_def)
    moreover have "objects ?s2 = objects s" using ob1 by simp
    ultimately show ?thesis using ne by blast
  qed
qed

lemma ex_ok: "store_ok example_store"
  by (simp add: store_ok_def example_store_def)

theorem C7_inputs_not_mutated_witness:
  "store_ok example_store \<and> arrays example_store 0 = Some [0, 1]
   \<and> (\<exists>result s'. heap_processedData code_unit_compare 0 initial_sortConfig [] example_store
          = Some (result, s')
        \<and> result \<noteq> 0
        \<and> arrays s' 0 = Some [0, 1]
        \<and> objects s' = objects example_store
        \<and> contents s' result
            = Some (processedData code_unit_compare (map (objects example_store) [0, 1])
                initial_sortConfig []))"
proof -
  have h: "arrays example_store 0 = Some [0, 1]"
    by (simp add: example_store_def)
  obtain result s' where
    "heap_processedData code_unit_compare 0 initial_sortConfig [] example_store = Some (result, s')"
    "result \<noteq> 0" "arrays s' 0 = Some [0, 1]" "objects s' = objects example_store"
    "contents s' result
       = Some (processedData code_unit_compare (map (objects example_store) [0, 1])
           initial_sortConfig [])"
    using C7_inputs_not_mutated [OF ex_ok h, of code_unit_compare initial_sortConfig "[]"]
    by blast
  then show ?thesis using ex_ok h by blast
qed

end
